theory Spec2Isabelle
  imports Complex_Main "HOL-Library.Sublist" "HOL-Library.Multiset"
begin

section \<open>Strings as the analyzers use them\<close>

text \<open>
  Python strings are modelled as \<open>string\<close> (lists of 8-bit characters); the theory
  covers ASCII text. \<open>split_chr sep s\<close> is \<^verbatim>\<open>s.split(sep)\<close> for a one-character
  separator: the empty string gives one empty piece, and every occurrence of the
  separator starts a new piece. \<open>join_str sep xs\<close> is \<^verbatim>\<open>sep.join(xs)\<close>.
\<close>

fun split_chr :: "char \<Rightarrow> string \<Rightarrow> string list" where
  "split_chr sep [] = [[]]"
| "split_chr sep (c # cs) =
     (if c = sep then [] # split_chr sep cs
      else (case split_chr sep cs of [] \<Rightarrow> [[c]] | p # ps \<Rightarrow> (c # p) # ps))"

fun join_str :: "string \<Rightarrow> string list \<Rightarrow> string" where
  "join_str sep [] = []"
| "join_str sep [x] = x"
| "join_str sep (x # y # ys) = x @ sep @ join_str sep (y # ys)"

definition is_digit :: "char \<Rightarrow> bool" where
  "is_digit c = (c \<in> set ''0123456789'')"

definition digit_value :: "char \<Rightarrow> int" where
  "digit_value c = of_char c - 48"

definition int_of_digits :: "string \<Rightarrow> int" where
  "int_of_digits s = foldl (\<lambda>a c. 10 * a + digit_value c) 0 s"

definition digit_char :: "int \<Rightarrow> char" where
  "digit_char n = ''0123456789'' ! nat (n mod 10)"

fun zpad :: "nat \<Rightarrow> int \<Rightarrow> string" where
  "zpad 0 n = []"
| "zpad (Suc k) n = zpad k (n div 10) @ [digit_char n]"

definition lower_chr :: "char \<Rightarrow> char" where
  "lower_chr c =
     (case map_of (zip ''ABCDEFGHIJKLMNOPQRSTUVWXYZ'' ''abcdefghijklmnopqrstuvwxyz'') c of
        None \<Rightarrow> c | Some d \<Rightarrow> d)"

definition lower :: "string \<Rightarrow> string" where
  "lower s = map lower_chr s"

definition isalnum :: "string \<Rightarrow> bool" where
  "isalnum s = (s \<noteq> [] \<and>
     list_all (\<lambda>c. c \<in> set ''0123456789ABCDEFGHIJKLMNOPQRSTUVWXYZabcdefghijklmnopqrstuvwxyz'') s)"


section \<open>Timestamps: \<open>parse_timestamp\<close>\<close>

text \<open>
  \<^verbatim>\<open>datetime.strptime\<close> builds, for the directives used here, the anchored pattern
  \<^verbatim>\<open>(2[0-3]|[0-1]\d|\d):([0-5]\d|\d):(6[0-1]|[0-5]\d|\d)\<close>, followed for the first
  format by \<^verbatim>\<open>\.([0-9]{1,6})\<close>; input left over after the match is a \<^verbatim>\<open>ValueError\<close>,
  and so is a seconds field of 60 or 61 when the \<^verbatim>\<open>datetime\<close> is built. As the fields
  hold digits only, the pattern matches exactly when the text between the separators
  is one digit, or two digits within the field's bound. \<open>None\<close> stands for the
  \<^verbatim>\<open>ValueError\<close>.

  A parsed time lies on the fixed date 1900-01-01, so it is represented by its
  microsecond of the day; comparison and subtraction of such \<^verbatim>\<open>datetime\<close>s are
  those of the integers.
\<close>

definition time_field :: "int \<Rightarrow> string \<Rightarrow> int option" where
  "time_field hi s =
     (if list_all is_digit s \<and> (length s = 1 \<or> (length s = 2 \<and> int_of_digits s \<le> hi))
      then Some (int_of_digits s) else None)"

definition fraction_field :: "string \<Rightarrow> int option" where
  "fraction_field s =
     (if list_all is_digit s \<and> 1 \<le> length s \<and> length s \<le> 6
      then Some (int_of_digits (s @ replicate (6 - length s) CHR ''0'')) else None)"

definition make_datetime :: "int \<Rightarrow> int \<Rightarrow> int \<Rightarrow> int \<Rightarrow> int option" where
  "make_datetime h m s f =
     (if s \<le> 59 then Some (((h * 60 + m) * 60 + s) * 1000000 + f) else None)"

definition strptime_HMSf :: "string \<Rightarrow> int option" where
  "strptime_HMSf time_str =
     (case split_chr CHR '':'' time_str of
        [hh, mm, rest] \<Rightarrow>
          (case split_chr CHR ''.'' rest of
             [ss, ff] \<Rightarrow>
               (case (time_field 23 hh, time_field 59 mm, time_field 61 ss, fraction_field ff) of
                  (Some h, Some m, Some s, Some f) \<Rightarrow> make_datetime h m s f
                | _ \<Rightarrow> None)
           | _ \<Rightarrow> None)
      | _ \<Rightarrow> None)"

definition strptime_HMS :: "string \<Rightarrow> int option" where
  "strptime_HMS time_str =
     (case split_chr CHR '':'' time_str of
        [hh, mm, ss] \<Rightarrow>
          (case (time_field 23 hh, time_field 59 mm, time_field 61 ss) of
             (Some h, Some m, Some s) \<Rightarrow> make_datetime h m s 0
           | _ \<Rightarrow> None)
      | _ \<Rightarrow> None)"

definition parse_timestamp :: "string \<Rightarrow> int option" where
  "parse_timestamp time_str =
     (case strptime_HMSf time_str of
        Some t \<Rightarrow> Some t
      | None \<Rightarrow> strptime_HMS time_str)"

text \<open>\<^verbatim>\<open>dt.strftime('%H:%M:%S.%f')\<close> for a time of the day given in microseconds.\<close>

definition strftime_HMSf :: "int \<Rightarrow> string" where
  "strftime_HMSf t =
     (zpad 2 (t div 3600000000) @ '':'' @ zpad 2 (t div 60000000 mod 60) @ '':'' @
      zpad 2 (t div 1000000 mod 60) @ ''.'' @ zpad 6 (t mod 1000000))"


section \<open>Log records and report values\<close>

text \<open>
  A log record is a JSON object; the analyzers read three of its keys. Parsing adds
  the key \<^verbatim>\<open>dt_time\<close> to a record in place, which the model renders as a record extension.
\<close>

record log_record =
  timestamp :: string
  non_duplicate_count :: int
  detected_words_list :: "string list"

record timed_record = log_record +
  dt_time :: int

definition with_dt_time :: "log_record \<Rightarrow> int \<Rightarrow> timed_record" where
  "with_dt_time record t =
     \<lparr>timestamp = timestamp record, non_duplicate_count = non_duplicate_count record,
      detected_words_list = detected_words_list record, dt_time = t\<rparr>"

text \<open>
  The lines of \<^verbatim>\<open>important_events\<close> are f-strings. The model keeps the interpolated
  values and the literal remark that ends the line; \<^verbatim>\<open>time_diff\<close> is carried in
  microseconds (the source holds the same quantity as a float number of seconds).
\<close>

datatype event_line =
    HIGH_ACTIVITY string int string
  | PAUSE_BREAK string string int string
  | NO_SIGNIFICANT_EVENTS

definition ACTIVITY_THRESHOLD :: int where
  "ACTIVITY_THRESHOLD = 50"

definition GAP_THRESHOLD_SECONDS :: int where
  "GAP_THRESHOLD_SECONDS = 5"

text \<open>
  The values both report texts interpolate, and the ones only one of them shows.
  Durations are in microseconds.
\<close>

record analysis =
  start_time :: string
  end_time :: string
  total_duration :: int
  total_words_read :: int
  top_content_words :: "string list"
  important_events :: "event_line list"

record narrative_report = analysis +
  inferred_content_keywords :: string
  total_unique_words :: nat

record smart_report = analysis +
  content_summary_narrative :: string


section \<open>\<^verbatim>\<open>collections.Counter\<close>\<close>

text \<open>
  A \<^verbatim>\<open>Counter\<close> is a dict, which keeps its keys in insertion order: an association
  list in order of first occurrence. \<^verbatim>\<open>most_common(n)\<close> is
  \<^verbatim>\<open>heapq.nlargest(n, items, key=count)\<close>, documented as
  \<^verbatim>\<open>sorted(items, key=count, reverse=True)[:n]\<close>: a stable sort by descending count.
\<close>

fun counter_add :: "('a \<times> nat) list \<Rightarrow> 'a \<Rightarrow> ('a \<times> nat) list" where
  "counter_add [] x = [(x, 1)]"
| "counter_add ((y, c) # ps) x =
     (if x = y then (y, Suc c) # ps else (y, c) # counter_add ps x)"

definition Counter :: "'a list \<Rightarrow> ('a \<times> nat) list" where
  "Counter xs = foldl counter_add [] xs"

definition most_common :: "nat \<Rightarrow> ('a \<times> nat) list \<Rightarrow> ('a \<times> nat) list" where
  "most_common n items = take n (sort_key (\<lambda>(word, count). - int count) items)"


section \<open>The narrative analyzer (\<^verbatim>\<open>ocr_analyzer.py\<close>)\<close>

definition NO_EVENTS_MESSAGE :: string where
  "NO_EVENTS_MESSAGE = ''No text detection events were recorded. Cannot generate summary.''"

definition NO_VALID_TIME_MESSAGE :: string where
  "NO_VALID_TIME_MESSAGE = ''No valid time data found in the log. Cannot generate summary.''"

text \<open>
  The parsing loop: a record whose timestamp parses is appended with its \<^verbatim>\<open>dt_time\<close>;
  for any other the \<^verbatim>\<open>ValueError\<close> is caught and a warning line is printed. The
  function returns the printed lines and \<^verbatim>\<open>timed_records\<close>.
\<close>

fun parse_records :: "log_record list \<Rightarrow> string list \<times> timed_record list" where
  "parse_records [] = ([], [])"
| "parse_records (record # log_data) =
     (let (printed, timed_records) = parse_records log_data in
      case parse_timestamp (timestamp record) of
        Some t \<Rightarrow> (printed, with_dt_time record t # timed_records)
      | None \<Rightarrow>
          ((''[WARNING] Skipping record due to bad timestamp: '' @ timestamp record) # printed,
           timed_records))"

text \<open>
  The event loop runs over \<^verbatim>\<open>enumerate(timed_records)\<close> and reads
  \<^verbatim>\<open>timed_records[i-1]\<close> when \<^verbatim>\<open>i > 0\<close>; the model passes that predecessor along.
\<close>

fun collect_events :: "timed_record option \<Rightarrow> timed_record list \<Rightarrow> event_line list" where
  "collect_events prev [] = []"
| "collect_events prev (record # rest) =
     (if non_duplicate_count record \<ge> ACTIVITY_THRESHOLD
      then [HIGH_ACTIVITY (timestamp record) (non_duplicate_count record)
              ''(Possible large document/email/page)'']
      else []) @
     (case prev of
        None \<Rightarrow> []
      | Some earlier \<Rightarrow>
          (let time_diff = dt_time record - dt_time earlier in
           if time_diff \<ge> GAP_THRESHOLD_SECONDS * 1000000
           then [PAUSE_BREAK (timestamp earlier) (timestamp record) time_diff
                   ''(Possible switch of content)'']
           else [])) @
     collect_events (Some record) rest"

definition generate_narrative_summary ::
    "log_record list \<Rightarrow> string list \<times> (string + narrative_report)" where
  "generate_narrative_summary log_data =
     (if log_data = [] then ([], Inl NO_EVENTS_MESSAGE)
      else
        let (printed, timed_records) = parse_records log_data in
        if timed_records = [] then (printed, Inl NO_VALID_TIME_MESSAGE)
        else
          let timed_records = sort_key dt_time timed_records;
              total_words_read = sum_list (map non_duplicate_count timed_records);
              start_time = (let s = strftime_HMSf (dt_time (hd timed_records))
                            in take (length s - 3) s);
              end_time = (let s = strftime_HMSf (dt_time (last timed_records))
                          in take (length s - 3) s);
              total_duration = dt_time (last timed_records) - dt_time (hd timed_records);
              all_content_words = concat (map detected_words_list timed_records);
              word_counts = Counter all_content_words;
              top_content_words = map fst (most_common 10 word_counts);
              inferred_content_keywords = join_str '', '' (take 5 top_content_words);
              important_events = collect_events None timed_records;
              important_events =
                (if important_events = [] then [NO_SIGNIFICANT_EVENTS] else important_events)
          in (printed,
              Inr \<lparr>start_time = start_time, end_time = end_time,
                   total_duration = total_duration, total_words_read = total_words_read,
                   top_content_words = top_content_words,
                   important_events = important_events,
                   inferred_content_keywords = inferred_content_keywords,
                   total_unique_words = length word_counts\<rparr>))"


section \<open>The NLTK interface\<close>

text \<open>
  \<^verbatim>\<open>sent_tokenize\<close>, \<^verbatim>\<open>word_tokenize\<close> and \<^verbatim>\<open>stopwords.words('english')\<close> belong to the
  NLTK library, not to this program: the summarizer is modelled over an arbitrary
  implementation of the three, each of which may raise (NLTK raises \<^verbatim>\<open>LookupError\<close>
  when a resource is not installed).
\<close>

datatype py_error = LookupError

record nltk =
  sent_tokenize :: "string \<Rightarrow> py_error + string list"
  word_tokenize :: "string \<Rightarrow> py_error + string list"
  stopwords_english :: "py_error + string list"


section \<open>The extractive summarizer (\<^verbatim>\<open>ocr_updated_analyze.py\<close>)\<close>

definition NOT_ENOUGH_TEXT_MESSAGE :: string where
  "NOT_ENOUGH_TEXT_MESSAGE =
     ''Not enough coherent text detected to generate a narrative summary.''"

text \<open>Step 3: one pass of the frequency loop, and the normalisation by the maximum.\<close>

definition count_word :: "string list \<Rightarrow> (string \<times> nat) list \<Rightarrow> string \<Rightarrow> (string \<times> nat) list" where
  "count_word stop_words word_frequencies word =
     (if isalnum word \<and> word \<notin> set stop_words
      then counter_add word_frequencies word
      else word_frequencies)"

definition max_frequency :: "(string \<times> nat) list \<Rightarrow> nat" where
  "max_frequency word_frequencies =
     (if word_frequencies \<noteq> [] then Max (set (map snd word_frequencies)) else 1)"

text \<open>
  The quotient is a Python float; the model computes it exactly, as a rational.
  No theorem below depends on the value of a score.
\<close>

definition normalize_frequencies :: "(string \<times> nat) list \<Rightarrow> (string \<times> rat) list" where
  "normalize_frequencies word_frequencies =
     map (\<lambda>(word, count). (word, of_nat count / of_nat (max_frequency word_frequencies)))
       word_frequencies"

text \<open>Step 4: the dict \<^verbatim>\<open>sentence_scores\<close>, in insertion order.\<close>

fun add_score :: "(string \<times> rat) list \<Rightarrow> string \<Rightarrow> rat \<Rightarrow> (string \<times> rat) list" where
  "add_score [] sentence f = [(sentence, f)]"
| "add_score ((s, v) # scores) sentence f =
     (if sentence = s then (s, v + f) # scores else (s, v) # add_score scores sentence f)"

definition score_word ::
    "(string \<times> rat) list \<Rightarrow> string \<Rightarrow> (string \<times> rat) list \<Rightarrow> string \<Rightarrow> (string \<times> rat) list" where
  "score_word word_frequencies sentence sentence_scores word =
     (case map_of word_frequencies word of
        None \<Rightarrow> sentence_scores
      | Some f \<Rightarrow>
          if length (split_chr CHR '' '' sentence) < 30
          then add_score sentence_scores sentence f
          else sentence_scores)"

fun score_sentences ::
    "nltk \<Rightarrow> (string \<times> rat) list \<Rightarrow> (string \<times> rat) list \<Rightarrow> string list \<Rightarrow>
     py_error + (string \<times> rat) list" where
  "score_sentences nlp word_frequencies sentence_scores [] = Inr sentence_scores"
| "score_sentences nlp word_frequencies sentence_scores (sentence # sentences) =
     (case word_tokenize nlp (lower sentence) of
        Inl e \<Rightarrow> Inl e
      | Inr tokens \<Rightarrow>
          score_sentences nlp word_frequencies
            (foldl (score_word word_frequencies sentence) sentence_scores tokens) sentences)"

text \<open>
  \<^verbatim>\<open>nlargest(n, sentence_scores, key=sentence_scores.get)\<close>: the keys of the dict,
  stably sorted by descending score, cut to \<open>n\<close>; nothing for \<open>n \<le> 0\<close>.
\<close>

definition nlargest :: "int \<Rightarrow> (string \<times> rat) list \<Rightarrow> string list" where
  "nlargest n sentence_scores =
     take (nat n) (map fst (sort_key (\<lambda>(sentence, score). - score) sentence_scores))"

definition generate_extractive_summary :: "nltk \<Rightarrow> string list \<Rightarrow> int \<Rightarrow> py_error + string" where
  "generate_extractive_summary nlp all_words num_sentences =
     (if all_words = [] then Inr NOT_ENOUGH_TEXT_MESSAGE
      else
        let text = join_str '' '' all_words in
        (case sent_tokenize nlp text of
           Inl e \<Rightarrow> Inl e
         | Inr sentences \<Rightarrow>
        (case word_tokenize nlp (lower text) of
           Inl e \<Rightarrow> Inl e
         | Inr words \<Rightarrow>
        if int (length sentences) < num_sentences then Inr (join_str '' '' sentences)
        else
        (case stopwords_english nlp of
           Inl e \<Rightarrow> Inl e
         | Inr stop_words \<Rightarrow>
        let word_frequencies = foldl (count_word stop_words) [] words;
            word_frequencies = normalize_frequencies word_frequencies
        in
        (case score_sentences nlp word_frequencies [] sentences of
           Inl e \<Rightarrow> Inl e
         | Inr sentence_scores \<Rightarrow>
        let summary_sentences = nlargest num_sentences sentence_scores
        in Inr (join_str '' '' summary_sentences))))))"


section \<open>The smart analyzer (\<^verbatim>\<open>ocr_updated_analyze.py\<close>)\<close>

text \<open>
  The same parsing loop, except that the handler of the \<^verbatim>\<open>ValueError\<close> is
  \<^verbatim>\<open>pass\<close>: nothing is printed.
\<close>

fun parse_records_updated :: "log_record list \<Rightarrow> string list \<times> timed_record list" where
  "parse_records_updated [] = ([], [])"
| "parse_records_updated (record # log_data) =
     (let (printed, timed_records) = parse_records_updated log_data in
      case parse_timestamp (timestamp record) of
        Some t \<Rightarrow> (printed, with_dt_time record t # timed_records)
      | None \<Rightarrow> (printed, timed_records))"

fun collect_events_updated :: "timed_record option \<Rightarrow> timed_record list \<Rightarrow> event_line list" where
  "collect_events_updated prev [] = []"
| "collect_events_updated prev (record # rest) =
     (if non_duplicate_count record \<ge> ACTIVITY_THRESHOLD
      then [HIGH_ACTIVITY (timestamp record) (non_duplicate_count record)
              ''(Possible dense document/mail)'']
      else []) @
     (case prev of
        None \<Rightarrow> []
      | Some earlier \<Rightarrow>
          (let time_diff = dt_time record - dt_time earlier in
           if time_diff \<ge> GAP_THRESHOLD_SECONDS * 1000000
           then [PAUSE_BREAK (timestamp earlier) (timestamp record) time_diff
                   ''(Possible switch of content)'']
           else [])) @
     collect_events_updated (Some record) rest"

definition generate_narrative_summary_updated ::
    "nltk \<Rightarrow> log_record list \<Rightarrow> string list \<times> (py_error + (string + smart_report))" where
  "generate_narrative_summary_updated nlp log_data =
     (if log_data = [] then ([], Inr (Inl NO_EVENTS_MESSAGE))
      else
        let (printed, timed_records) = parse_records_updated log_data in
        if timed_records = [] then (printed, Inr (Inl NO_VALID_TIME_MESSAGE))
        else
          let timed_records = sort_key dt_time timed_records;
              start_time = (let s = strftime_HMSf (dt_time (hd timed_records))
                            in take (length s - 3) s);
              end_time = (let s = strftime_HMSf (dt_time (last timed_records))
                          in take (length s - 3) s);
              total_duration = dt_time (last timed_records) - dt_time (hd timed_records);
              all_content_words = concat (map detected_words_list timed_records);
              word_counts = Counter all_content_words;
              total_words_read = sum_list (map non_duplicate_count timed_records);
              top_content_words = map fst (most_common 10 word_counts)
          in
          case generate_extractive_summary nlp all_content_words 4 of
            Inl e \<Rightarrow> (printed, Inl e)
          | Inr narrative \<Rightarrow>
              let important_events = collect_events_updated None timed_records;
                  important_events =
                    (if important_events = [] then [NO_SIGNIFICANT_EVENTS] else important_events)
              in (printed,
                  Inr (Inr \<lparr>start_time = start_time, end_time = end_time,
                            total_duration = total_duration, total_words_read = total_words_read,
                            top_content_words = top_content_words,
                            important_events = important_events,
                            content_summary_narrative = narrative\<rparr>)))"


section \<open>A rule-based tokenizer\<close>

text \<open>
  A small implementation of the NLTK interface, used to run the summarizer on
  concrete word streams: a sentence ends after a word that ends in a full stop, a
  question mark or an exclamation mark, and the blanks between sentences are
  dropped; a word token is split from the punctuation mark that ends it.
\<close>

definition ends_sentence :: "string \<Rightarrow> bool" where
  "ends_sentence w = (w \<noteq> [] \<and> last w \<in> set ''.!?'')"

fun group_sentences :: "string list \<Rightarrow> string list \<Rightarrow> string list list" where
  "group_sentences current [] = (if current = [] then [] else [current])"
| "group_sentences current (w # ws) =
     (if ends_sentence w then (current @ [w]) # group_sentences [] ws
      else group_sentences (current @ [w]) ws)"

definition blank_separated :: "string \<Rightarrow> string list" where
  "blank_separated s = filter (\<lambda>w. w \<noteq> []) (split_chr CHR '' '' s)"

definition rule_sent_tokenize :: "string \<Rightarrow> string list" where
  "rule_sent_tokenize s = map (join_str '' '') (group_sentences [] (blank_separated s))"

definition split_punctuation :: "string \<Rightarrow> string list" where
  "split_punctuation w =
     (if 1 < length w \<and> last w \<in> set ''.!?,'' then [butlast w, [last w]] else [w])"

definition rule_word_tokenize :: "string \<Rightarrow> string list" where
  "rule_word_tokenize s = concat (map split_punctuation (blank_separated s))"

definition rule_stop_words :: "string list" where
  "rule_stop_words =
     [''i'', ''it'', ''he'', ''is'', ''was'', ''the'', ''a'', ''an'', ''and'', ''of'', ''to'', ''in'']"

definition rule_based_nltk :: nltk where
  "rule_based_nltk =
     \<lparr>sent_tokenize = (\<lambda>s. Inr (rule_sent_tokenize s)),
      word_tokenize = (\<lambda>s. Inr (rule_word_tokenize s)),
      stopwords_english = Inr rule_stop_words\<rparr>"


section \<open>Notions used to state the properties\<close>

text \<open>
  The valid events of a log are its records whose timestamp parses, each with its
  parsed time, in log order; the session is their stable sort by time.
\<close>

definition valid_records :: "log_record list \<Rightarrow> timed_record list" where
  "valid_records log_data =
     concat (map (\<lambda>record. case parse_timestamp (timestamp record) of
                              None \<Rightarrow> []
                            | Some t \<Rightarrow> [with_dt_time record t]) log_data)"

definition session :: "log_record list \<Rightarrow> timed_record list" where
  "session log_data = sort_key dt_time (valid_records log_data)"

definition merged_words :: "log_record list \<Rightarrow> string list" where
  "merged_words log_data = concat (map detected_words_list (session log_data))"

text \<open>The high-activity flags and the gap descriptors among the event lines.\<close>

fun activity_flag :: "event_line \<Rightarrow> (string \<times> int) list" where
  "activity_flag (HIGH_ACTIVITY ts n remark) = [(ts, n)]"
| "activity_flag (PAUSE_BREAK ts ts' d remark) = []"
| "activity_flag NO_SIGNIFICANT_EVENTS = []"

fun gap_flag :: "event_line \<Rightarrow> (string \<times> string \<times> int) list" where
  "gap_flag (HIGH_ACTIVITY ts n remark) = []"
| "gap_flag (PAUSE_BREAK ts ts' d remark) = [(ts, ts', d)]"
| "gap_flag NO_SIGNIFICANT_EVENTS = []"

definition activity_flags :: "event_line list \<Rightarrow> (string \<times> int) list" where
  "activity_flags events = concat (map activity_flag events)"

definition gap_flags :: "event_line list \<Rightarrow> (string \<times> string \<times> int) list" where
  "gap_flags events = concat (map gap_flag events)"

text \<open>What the specification asks of the two detectors, over a list of events.\<close>

definition adjacent_pairs :: "'a list \<Rightarrow> ('a \<times> 'a) list" where
  "adjacent_pairs xs = zip xs (tl xs)"

definition detectGaps :: "timed_record list \<Rightarrow> int \<Rightarrow> (string \<times> string \<times> int) list" where
  "detectGaps orderedEvents gapThresholdMicroseconds =
     map (\<lambda>(prev, cur). (timestamp prev, timestamp cur, dt_time cur - dt_time prev))
       (filter (\<lambda>(prev, cur). dt_time cur - dt_time prev \<ge> gapThresholdMicroseconds)
          (adjacent_pairs orderedEvents))"

definition detectHighActivity :: "timed_record list \<Rightarrow> int \<Rightarrow> (string \<times> int) list" where
  "detectHighActivity orderedEvents activityThreshold =
     map (\<lambda>event. (timestamp event, non_duplicate_count event))
       (filter (\<lambda>event. non_duplicate_count event \<ge> activityThreshold) orderedEvents)"

text \<open>An event line without the remark that ends it, and the position of a word's
  first occurrence.\<close>

fun without_remark :: "event_line \<Rightarrow> event_line" where
  "without_remark (HIGH_ACTIVITY ts n remark) = HIGH_ACTIVITY ts n []"
| "without_remark (PAUSE_BREAK ts ts' d remark) = PAUSE_BREAK ts ts' d []"
| "without_remark NO_SIGNIFICANT_EVENTS = NO_SIGNIFICANT_EVENTS"

definition shared_results ::
    "'a analysis_scheme \<Rightarrow> string \<times> string \<times> int \<times> int \<times> string list \<times> event_line list" where
  "shared_results r =
     (start_time r, end_time r, total_duration r, total_words_read r, top_content_words r,
      map without_remark (important_events r))"

fun first_index :: "'a list \<Rightarrow> 'a \<Rightarrow> nat" where
  "first_index [] x = 0"
| "first_index (y # ys) x = (if x = y then 0 else Suc (first_index ys x))"

definition top_words :: "nat \<Rightarrow> 'a list \<Rightarrow> 'a list" where
  "top_words k flatWordSequence = map fst (most_common k (Counter flatWordSequence))"

text \<open>
  The order of the top words: a word comes before another when it occurs more often,
  or as often and first occurs earlier.
\<close>

definition precedes :: "'a list \<Rightarrow> 'a \<Rightarrow> 'a \<Rightarrow> bool" where
  "precedes ws a b =
     (count_list ws b < count_list ws a \<or>
      (count_list ws a = count_list ws b \<and> first_index ws a < first_index ws b))"

text \<open>The content words of the summarizer: the keys of its frequency table.\<close>

definition content_word :: "string list \<Rightarrow> string list \<Rightarrow> string \<Rightarrow> bool" where
  "content_word stop_words words w = (w \<in> set words \<and> isalnum w \<and> w \<notin> set stop_words)"

definition pieces :: "string \<Rightarrow> nat" where
  "pieces sentence = length (split_chr CHR '' '' sentence)"

text \<open>The word tokens of a sentence, as the scoring loop obtains them.\<close>

definition tokens_of :: "nltk \<Rightarrow> string \<Rightarrow> string list" where
  "tokens_of nlp sentence =
     (case word_tokenize nlp (lower sentence) of Inl e \<Rightarrow> [] | Inr tokens \<Rightarrow> tokens)"


text \<open>What a record adds to the total of words read, from its timestamp and count.\<close>

definition counted :: "string \<times> int \<Rightarrow> int" where
  "counted p = (case parse_timestamp (fst p) of None \<Rightarrow> 0 | Some t \<Rightarrow> snd p)"


section \<open>Concrete logs and word streams\<close>

definition event :: "string \<Rightarrow> int \<Rightarrow> string list \<Rightarrow> log_record" where
  "event ts n ws = \<lparr>timestamp = ts, non_duplicate_count = n, detected_words_list = ws\<rparr>"

definition log_with_bad_timestamp :: "log_record list" where
  "log_with_bad_timestamp =
     [event ''9 o'clock'' 7 [''lost''], event ''09:00:01'' 3 [''kept'', ''words'', ''kept'']]"

definition log_with_gap :: "log_record list" where
  "log_with_gap =
     [event ''09:00:00.000'' 10 [''alpha'', ''beta''],
      event ''09:00:02.000'' 5 [''beta''],
      event ''09:00:08.000'' 55 [''gamma'', ''beta'']]"

definition log_at_threshold :: "log_record list" where
  "log_at_threshold =
     [event ''10:00:01'' 50 [''dense''], event ''10:00:00'' 49 [''sparse'']]"

definition thirty_piece_sentence :: string where
  "thirty_piece_sentence = join_str '' '' (replicate 29 ''Data'' @ [''data.''])"

definition stream_with_thirty_pieces :: "string list" where
  "stream_with_thirty_pieces =
     replicate 29 ''Data'' @ [''data.'', ''Cats'', ''purr.'', ''Dogs'', ''bark.'', ''Birds'', ''sing.'']"

definition stream_of_stop_words :: "string list" where
  "stream_of_stop_words = [''It'', ''is.'', ''It'', ''was.'', ''He'', ''is.'', ''He'', ''was.'']"

definition stream_with_empty_word :: "string list" where
  "stream_with_empty_word = [''Hello.'', [], ''World.'']"

definition words_with_ties :: "string list" where
  "words_with_ties = [''b'', ''a'', ''b'', ''c'', ''a'', ''d'']"

definition log_with_gap_shuffled :: "log_record list" where
  "log_with_gap_shuffled =
     [event ''09:00:08.000'' 55 [],
      event ''09:00:00.000'' 10 [''delta''],
      event ''09:00:02.000'' 5 [''epsilon'', ''delta'']]"


section \<open>The two analyzers, unfolded\<close>

lemma parse_records_snd: "snd (parse_records log_data) = valid_records log_data"
  by (induction log_data) (auto simp: valid_records_def split: prod.splits option.splits)

lemma parse_records_updated_snd: "snd (parse_records_updated log_data) = valid_records log_data"
  by (induction log_data) (auto simp: valid_records_def split: prod.splits option.splits)

lemma parse_records_updated_fst: "fst (parse_records_updated log_data) = []"
  by (induction log_data) (auto split: prod.splits option.splits)

lemma session_Nil_iff: "session log_data = [] \<longleftrightarrow> valid_records log_data = []"
  by (metis length_0_conv length_sort session_def)

lemma length_zpad: "length (zpad k n) = k"
  by (induction k n rule: zpad.induct) auto

lemma length_strftime: "length (strftime_HMSf t) = 15"
  by (simp add: strftime_HMSf_def length_zpad)

lemma narrative_report_eq:
  "snd (generate_narrative_summary log_data) =
     (if valid_records log_data = []
      then Inl (if log_data = [] then NO_EVENTS_MESSAGE else NO_VALID_TIME_MESSAGE)
      else Inr \<lparr>start_time = take 12 (strftime_HMSf (dt_time (hd (session log_data)))),
                end_time = take 12 (strftime_HMSf (dt_time (last (session log_data)))),
                total_duration =
                  dt_time (last (session log_data)) - dt_time (hd (session log_data)),
                total_words_read = sum_list (map non_duplicate_count (session log_data)),
                top_content_words = top_words 10 (merged_words log_data),
                important_events =
                  (if collect_events None (session log_data) = [] then [NO_SIGNIFICANT_EVENTS]
                   else collect_events None (session log_data)),
                inferred_content_keywords =
                  join_str '', '' (take 5 (top_words 10 (merged_words log_data))),
                total_unique_words = length (Counter (merged_words log_data))\<rparr>)"
proof (cases "log_data = []")
  case True
  then show ?thesis by (simp add: generate_narrative_summary_def valid_records_def)
next
  case False
  obtain printed timed where p: "parse_records log_data = (printed, timed)"
    by (cases "parse_records log_data")
  then have t: "timed = valid_records log_data"
    using parse_records_snd [of log_data] by simp
  show ?thesis
    using False p t
    by (simp add: generate_narrative_summary_def Let_def session_def merged_words_def
        top_words_def length_strftime)
qed

lemma smart_report_eq:
  "snd (generate_narrative_summary_updated nlp log_data) =
     (if valid_records log_data = []
      then Inr (Inl (if log_data = [] then NO_EVENTS_MESSAGE else NO_VALID_TIME_MESSAGE))
      else case generate_extractive_summary nlp (merged_words log_data) 4 of
        Inl e \<Rightarrow> Inl e
      | Inr narrative \<Rightarrow>
          Inr (Inr \<lparr>start_time = take 12 (strftime_HMSf (dt_time (hd (session log_data)))),
                end_time = take 12 (strftime_HMSf (dt_time (last (session log_data)))),
                total_duration =
                  dt_time (last (session log_data)) - dt_time (hd (session log_data)),
                total_words_read = sum_list (map non_duplicate_count (session log_data)),
                top_content_words = top_words 10 (merged_words log_data),
                important_events =
                  (if collect_events_updated None (session log_data) = []
                   then [NO_SIGNIFICANT_EVENTS]
                   else collect_events_updated None (session log_data)),
                content_summary_narrative = narrative\<rparr>))"
proof (cases "log_data = []")
  case True
  then show ?thesis by (simp add: generate_narrative_summary_updated_def valid_records_def)
next
  case False
  obtain printed timed where p: "parse_records_updated log_data = (printed, timed)"
    by (cases "parse_records_updated log_data")
  then have t: "timed = valid_records log_data"
    using parse_records_updated_snd [of log_data] by simp
  show ?thesis
    using False p t
    by (simp add: generate_narrative_summary_updated_def Let_def session_def merged_words_def
        top_words_def length_strftime split: sum.splits)
qed

lemma activity_flags_collect:
  "activity_flags (collect_events prev rs) = detectHighActivity rs ACTIVITY_THRESHOLD"
  by (induction rs arbitrary: prev)
     (auto simp: activity_flags_def detectHighActivity_def Let_def split: option.splits)

lemma activity_flags_collect_updated:
  "activity_flags (collect_events_updated prev rs) = detectHighActivity rs ACTIVITY_THRESHOLD"
  by (induction rs arbitrary: prev)
     (auto simp: activity_flags_def detectHighActivity_def Let_def split: option.splits)

lemma gap_flags_collect:
  "gap_flags (collect_events prev rs) =
     detectGaps (case prev of None \<Rightarrow> rs | Some p \<Rightarrow> p # rs) (GAP_THRESHOLD_SECONDS * 1000000)"
  by (induction rs arbitrary: prev)
     (auto simp: gap_flags_def detectGaps_def adjacent_pairs_def Let_def split: option.splits)

lemma gap_flags_collect_updated:
  "gap_flags (collect_events_updated prev rs) =
     detectGaps (case prev of None \<Rightarrow> rs | Some p \<Rightarrow> p # rs) (GAP_THRESHOLD_SECONDS * 1000000)"
  by (induction rs arbitrary: prev)
     (auto simp: gap_flags_def detectGaps_def adjacent_pairs_def Let_def split: option.splits)

lemma without_remark_collect:
  "map without_remark (collect_events_updated prev rs) =
   map without_remark (collect_events prev rs)"
  by (induction rs arbitrary: prev) (auto simp: Let_def split: option.splits)

lemma flags_of_events:
  "activity_flags (if evs = [] then [NO_SIGNIFICANT_EVENTS] else evs) = activity_flags evs"
  "gap_flags (if evs = [] then [NO_SIGNIFICANT_EVENTS] else evs) = gap_flags evs"
  by (simp_all add: activity_flags_def gap_flags_def)


lemma collect_events_Nil_iff:
  "collect_events_updated prev rs = [] \<longleftrightarrow> collect_events prev rs = []"
proof -
  have "map without_remark (collect_events_updated prev rs) = [] \<longleftrightarrow>
        map without_remark (collect_events prev rs) = []"
    by (simp only: without_remark_collect)
  then show ?thesis by simp
qed

lemma sorted_session: "sorted (map dt_time (session log_data))"
  by (simp add: session_def)

lemma sum_list_mset_cong:
  fixes xs ys :: "int list"
  assumes "mset xs = mset ys"
  shows "sum_list xs = sum_list ys"
proof -
  have "sum_mset (mset xs) = sum_mset (mset ys)" using assms by simp
  then show ?thesis by (simp only: sum_mset_sum_list)
qed

lemma sum_session:
  "sum_list (map non_duplicate_count (session log_data)) =
   sum_list (map non_duplicate_count (valid_records log_data))"
  by (rule sum_list_mset_cong) (simp add: session_def)

lemma sum_valid_records:
  "sum_list (map non_duplicate_count (valid_records log_data)) =
   sum_list (map counted (map (\<lambda>e. (timestamp e, non_duplicate_count e)) log_data))"
  by (induction log_data)
     (simp_all add: valid_records_def counted_def with_dt_time_def split: option.splits)

lemma sum_valid_records_mset:
  assumes "mset (map (\<lambda>e. (timestamp e, non_duplicate_count e)) log_data') =
           mset (map (\<lambda>e. (timestamp e, non_duplicate_count e)) log_data)"
  shows "sum_list (map non_duplicate_count (valid_records log_data')) =
         sum_list (map non_duplicate_count (valid_records log_data))"
proof -
  have "image_mset counted (mset (map (\<lambda>e. (timestamp e, non_duplicate_count e)) log_data')) =
        image_mset counted (mset (map (\<lambda>e. (timestamp e, non_duplicate_count e)) log_data))"
    using assms by (rule arg_cong)
  then have "mset (map counted (map (\<lambda>e. (timestamp e, non_duplicate_count e)) log_data')) =
        mset (map counted (map (\<lambda>e. (timestamp e, non_duplicate_count e)) log_data))"
    by (simp only: mset_map)
  then show ?thesis unfolding sum_valid_records by (rule sum_list_mset_cong)
qed

lemma three_events:
  assumes "parse_timestamp (timestamp a) = Some t"
    and "parse_timestamp (timestamp b) = Some (t + 2000000)"
    and "parse_timestamp (timestamp c) = Some (t + 8000000)"
  shows "detectGaps (session [a, b, c]) 5000000 = [(timestamp b, timestamp c, 6000000)]"
  using assms
  by (simp add: session_def valid_records_def detectGaps_def adjacent_pairs_def
        with_dt_time_def)

lemma parse_records_fst:
  "fst (parse_records log_data) =
     map (\<lambda>record. ''[WARNING] Skipping record due to bad timestamp: '' @ timestamp record)
       (filter (\<lambda>record. parse_timestamp (timestamp record) = None) log_data)"
  by (induction log_data) (auto split: prod.splits option.splits)

lemma narrative_printed:
  "fst (generate_narrative_summary log_data) = fst (parse_records log_data)"
  by (cases "parse_records log_data")
     (auto simp: generate_narrative_summary_def Let_def)

lemma updated_printed:
  "fst (generate_narrative_summary_updated nlp log_data) = []"
proof (cases "parse_records_updated log_data")
  case (Pair printed timed)
  then have "printed = []"
    using parse_records_updated_fst [of log_data] by simp
  then show ?thesis
    using Pair
    by (auto simp: generate_narrative_summary_updated_def Let_def split: sum.splits)
qed

text \<open>The concrete logs, evaluated.\<close>

lemma valid_log_with_gap: "valid_records log_with_gap \<noteq> []"
  by code_simp

lemma gaps_log_with_gap:
  "detectGaps (session log_with_gap) 5000000 = [(''09:00:02.000'', ''09:00:08.000'', 6000000)]"
  by code_simp

lemma summary_log_with_gap:
  "generate_extractive_summary rule_based_nltk (merged_words log_with_gap) 4 =
     Inr ''alpha beta beta gamma beta''"
  by code_simp

lemma valid_log_at_threshold: "valid_records log_at_threshold \<noteq> []"
  by code_simp

lemma flags_log_at_threshold:
  "detectHighActivity (session log_at_threshold) 50 = [(''10:00:01'', 50)]"
  by code_simp

lemma summary_log_at_threshold:
  "generate_extractive_summary rule_based_nltk (merged_words log_at_threshold) 4 =
     Inr ''sparse dense''"
  by code_simp

lemma total_log_with_gap:
  "sum_list (map non_duplicate_count (valid_records log_with_gap)) = 70"
  by code_simp

lemma shuffled_log_with_gap:
  "mset (map (\<lambda>e. (timestamp e, non_duplicate_count e)) log_with_gap_shuffled) =
   mset (map (\<lambda>e. (timestamp e, non_duplicate_count e)) log_with_gap)"
  by (simp add: log_with_gap_shuffled_def log_with_gap_def event_def add_mset_commute)

lemma updated_log_with_gap:
  "snd (generate_narrative_summary_updated rule_based_nltk log_with_gap) =
     Inr (Inr \<lparr>start_time = ''09:00:00.000'', end_time = ''09:00:08.000'',
               total_duration = 8000000, total_words_read = 70,
               top_content_words = [''beta'', ''alpha'', ''gamma''],
               important_events =
                 [HIGH_ACTIVITY ''09:00:08.000'' 55 ''(Possible dense document/mail)'',
                  PAUSE_BREAK ''09:00:02.000'' ''09:00:08.000'' 6000000
                    ''(Possible switch of content)''],
               content_summary_narrative = ''alpha beta beta gamma beta''\<rparr>)"
  by code_simp

lemma narrative_log_with_gap:
  "snd (generate_narrative_summary log_with_gap) =
     Inr \<lparr>start_time = ''09:00:00.000'', end_time = ''09:00:08.000'',
          total_duration = 8000000, total_words_read = 70,
          top_content_words = [''beta'', ''alpha'', ''gamma''],
          important_events =
            [HIGH_ACTIVITY ''09:00:08.000'' 55 ''(Possible large document/email/page)'',
             PAUSE_BREAK ''09:00:02.000'' ''09:00:08.000'' 6000000
               ''(Possible switch of content)''],
          inferred_content_keywords = ''beta, alpha, gamma'', total_unique_words = 3\<rparr>"
  by code_simp


section \<open>Gaps, high activity and the total of words read\<close>

text \<open>
  C5. The session is sorted by time, and the gap descriptors among the event lines of
  either analyzer are exactly those of \<open>detectGaps\<close> at 5 seconds: one for each
  adjacent pair of the session whose difference is at least the threshold, with that
  difference, and none for any other pair. In particular three events at \<open>t\<close>,
  \<open>t + 2s\<close> and \<open>t + 8s\<close> give the single gap between the second and the third, of 6
  seconds. (The updated analyzer returns a report when its summarizer returns.)
\<close>

theorem gap_detection:
  assumes "valid_records log_data \<noteq> []"
  shows "sorted (map dt_time (session log_data)) \<and>
         (\<exists>r. snd (generate_narrative_summary log_data) = Inr r \<and>
            gap_flags (important_events r) = detectGaps (session log_data) 5000000) \<and>
         (\<forall>narrative.
            generate_extractive_summary nlp (merged_words log_data) 4 = Inr narrative \<longrightarrow>
            (\<exists>r. snd (generate_narrative_summary_updated nlp log_data) = Inr (Inr r) \<and>
               gap_flags (important_events r) = detectGaps (session log_data) 5000000)) \<and>
         (\<forall>a b c t. log_data = [a, b, c] \<and> parse_timestamp (timestamp a) = Some t \<and>
            parse_timestamp (timestamp b) = Some (t + 2000000) \<and>
            parse_timestamp (timestamp c) = Some (t + 8000000) \<longrightarrow>
            detectGaps (session log_data) 5000000 = [(timestamp b, timestamp c, 6000000)])"
proof (intro conjI)
  show "sorted (map dt_time (session log_data))" by (rule sorted_session)
  show "\<exists>r. snd (generate_narrative_summary log_data) = Inr r \<and>
            gap_flags (important_events r) = detectGaps (session log_data) 5000000"
    using assms
    by (simp add: narrative_report_eq flags_of_events gap_flags_collect GAP_THRESHOLD_SECONDS_def)
  show "\<forall>narrative.
            generate_extractive_summary nlp (merged_words log_data) 4 = Inr narrative \<longrightarrow>
            (\<exists>r. snd (generate_narrative_summary_updated nlp log_data) = Inr (Inr r) \<and>
               gap_flags (important_events r) = detectGaps (session log_data) 5000000)"
    using assms
    by (simp add: smart_report_eq flags_of_events gap_flags_collect_updated
        GAP_THRESHOLD_SECONDS_def)
  show "\<forall>a b c t. log_data = [a, b, c] \<and> parse_timestamp (timestamp a) = Some t \<and>
            parse_timestamp (timestamp b) = Some (t + 2000000) \<and>
            parse_timestamp (timestamp c) = Some (t + 8000000) \<longrightarrow>
            detectGaps (session log_data) 5000000 = [(timestamp b, timestamp c, 6000000)]"
    using three_events by blast
qed

theorem gap_detection_witness:
  "(\<exists>r. snd (generate_narrative_summary log_with_gap) = Inr r \<and>
      gap_flags (important_events r) = [(''09:00:02.000'', ''09:00:08.000'', 6000000)]) \<and>
   (\<exists>r. snd (generate_narrative_summary_updated rule_based_nltk log_with_gap) = Inr (Inr r) \<and>
      gap_flags (important_events r) = [(''09:00:02.000'', ''09:00:08.000'', 6000000)])"
  using gap_detection [OF valid_log_with_gap, of rule_based_nltk]
  by (simp add: gaps_log_with_gap summary_log_with_gap)

text \<open>
  C6. The high-activity flags among the event lines of either analyzer are exactly
  those of \<open>detectHighActivity\<close> at 50: the valid events, in session order, whose
  \<open>non_duplicate_count\<close> is at least 50, each with its timestamp and count.
\<close>

theorem high_activity_detection:
  assumes "valid_records log_data \<noteq> []"
  shows "(\<exists>r. snd (generate_narrative_summary log_data) = Inr r \<and>
            activity_flags (important_events r) = detectHighActivity (session log_data) 50) \<and>
         (\<forall>narrative.
            generate_extractive_summary nlp (merged_words log_data) 4 = Inr narrative \<longrightarrow>
            (\<exists>r. snd (generate_narrative_summary_updated nlp log_data) = Inr (Inr r) \<and>
               activity_flags (important_events r) =
                 detectHighActivity (session log_data) 50))"
  using assms
  by (simp add: narrative_report_eq smart_report_eq flags_of_events activity_flags_collect
      activity_flags_collect_updated ACTIVITY_THRESHOLD_def)

text \<open>Of two events with counts 50 and 49, only the one with 50 is flagged.\<close>

theorem high_activity_detection_witness:
  "(\<exists>r. snd (generate_narrative_summary log_at_threshold) = Inr r \<and>
      activity_flags (important_events r) = [(''10:00:01'', 50)]) \<and>
   (\<exists>r. snd (generate_narrative_summary_updated rule_based_nltk log_at_threshold) =
           Inr (Inr r) \<and>
      activity_flags (important_events r) = [(''10:00:01'', 50)])"
  using high_activity_detection [OF valid_log_at_threshold, of rule_based_nltk]
  by (simp add: flags_log_at_threshold summary_log_at_threshold)

text \<open>
  C7. The total of words read that either analyzer reports is the sum of
  \<open>non_duplicate_count\<close> over the valid events, in log order; and that sum is the
  same for any log with the same timestamps and counts, whatever its order and its
  word lists.
\<close>

theorem total_words_read_sum:
  assumes "valid_records log_data \<noteq> []"
  shows "(\<exists>r. snd (generate_narrative_summary log_data) = Inr r \<and>
            total_words_read r = sum_list (map non_duplicate_count (valid_records log_data))) \<and>
         (\<forall>narrative.
            generate_extractive_summary nlp (merged_words log_data) 4 = Inr narrative \<longrightarrow>
            (\<exists>r. snd (generate_narrative_summary_updated nlp log_data) = Inr (Inr r) \<and>
               total_words_read r =
                 sum_list (map non_duplicate_count (valid_records log_data)))) \<and>
         (\<forall>log_data'.
            mset (map (\<lambda>e. (timestamp e, non_duplicate_count e)) log_data') =
            mset (map (\<lambda>e. (timestamp e, non_duplicate_count e)) log_data) \<longrightarrow>
            sum_list (map non_duplicate_count (valid_records log_data')) =
            sum_list (map non_duplicate_count (valid_records log_data)))"
proof (intro conjI)
  show "\<exists>r. snd (generate_narrative_summary log_data) = Inr r \<and>
            total_words_read r = sum_list (map non_duplicate_count (valid_records log_data))"
    using assms by (simp add: narrative_report_eq sum_session)
  show "\<forall>narrative.
            generate_extractive_summary nlp (merged_words log_data) 4 = Inr narrative \<longrightarrow>
            (\<exists>r. snd (generate_narrative_summary_updated nlp log_data) = Inr (Inr r) \<and>
               total_words_read r =
                 sum_list (map non_duplicate_count (valid_records log_data)))"
    using assms by (simp add: smart_report_eq sum_session)
  show "\<forall>log_data'.
            mset (map (\<lambda>e. (timestamp e, non_duplicate_count e)) log_data') =
            mset (map (\<lambda>e. (timestamp e, non_duplicate_count e)) log_data) \<longrightarrow>
            sum_list (map non_duplicate_count (valid_records log_data')) =
            sum_list (map non_duplicate_count (valid_records log_data))"
    using sum_valid_records_mset by blast
qed

theorem total_words_read_sum_witness:
  "(\<exists>r. snd (generate_narrative_summary log_with_gap) = Inr r \<and> total_words_read r = 70) \<and>
   (\<exists>r. snd (generate_narrative_summary_updated rule_based_nltk log_with_gap) = Inr (Inr r) \<and>
      total_words_read r = 70) \<and>
   sum_list (map non_duplicate_count (valid_records log_with_gap_shuffled)) = 70"
proof -
  note total = total_words_read_sum [OF valid_log_with_gap, of rule_based_nltk]
  have "sum_list (map non_duplicate_count (valid_records log_with_gap_shuffled)) =
        sum_list (map non_duplicate_count (valid_records log_with_gap))"
    using total shuffled_log_with_gap by blast
  then show ?thesis
    using total by (simp add: total_log_with_gap summary_log_with_gap)
qed


section \<open>The two analyzers compared\<close>

text \<open>
  C9. Whenever the updated analyzer returns (its summarizer raised nothing), the
  narrative analyzer returns the same message, or a report with the same start time,
  end time, duration, total of words read, top ten words and event lines up to the
  remark that ends a line.
\<close>

theorem variants_agree:
  assumes "snd (generate_narrative_summary_updated nlp log_data) = Inr updated"
  shows "case (snd (generate_narrative_summary log_data), updated) of
           (Inl message, Inl message') \<Rightarrow> message' = message
         | (Inr r, Inr r') \<Rightarrow> shared_results r' = shared_results r
         | _ \<Rightarrow> False"
proof (cases "valid_records log_data = []")
  case True
  then show ?thesis
    using assms by (auto simp: narrative_report_eq smart_report_eq)
next
  case False
  then obtain narrative
    where n: "generate_extractive_summary nlp (merged_words log_data) 4 = Inr narrative"
    using assms by (auto simp: smart_report_eq split: sum.splits)
  show ?thesis
    using assms False n
    by (auto simp: narrative_report_eq smart_report_eq shared_results_def
        without_remark_collect collect_events_Nil_iff)
qed

theorem variants_agree_witness:
  "\<exists>r r'. snd (generate_narrative_summary_updated rule_based_nltk log_with_gap) = Inr (Inr r') \<and>
     snd (generate_narrative_summary log_with_gap) = Inr r \<and>
     shared_results r' = shared_results r \<and> total_duration r = 8000000"
  using variants_agree [OF updated_log_with_gap]
  by (simp add: updated_log_with_gap narrative_log_with_gap)


section \<open>Records with a bad timestamp\<close>

text \<open>
  C2. Both parsing loops keep exactly the records whose timestamp parses and go on
  with the rest of the log. The narrative analyzer prints one warning for each record
  it drops; the updated analyzer prints nothing. On a log whose first record has the
  timestamp \<^verbatim>\<open>9 o'clock\<close>, both report on the other record, the first with the warning
  and the second without.
\<close>

theorem updated_analyzer_skips_silently:
  "snd (parse_records log_data) = valid_records log_data \<and>
   snd (parse_records_updated log_data) = valid_records log_data \<and>
   fst (generate_narrative_summary log_data) =
     map (\<lambda>record. ''[WARNING] Skipping record due to bad timestamp: '' @ timestamp record)
       (filter (\<lambda>record. parse_timestamp (timestamp record) = None) log_data) \<and>
   fst (generate_narrative_summary_updated nlp log_data) = [] \<and>
   generate_narrative_summary log_with_bad_timestamp =
     ([''[WARNING] Skipping record due to bad timestamp: 9 o'clock''],
      Inr \<lparr>start_time = ''09:00:01.000'', end_time = ''09:00:01.000'', total_duration = 0,
           total_words_read = 3, top_content_words = [''kept'', ''words''],
           important_events = [NO_SIGNIFICANT_EVENTS],
           inferred_content_keywords = ''kept, words'', total_unique_words = 2\<rparr>) \<and>
   generate_narrative_summary_updated rule_based_nltk log_with_bad_timestamp =
     ([],
      Inr (Inr \<lparr>start_time = ''09:00:01.000'', end_time = ''09:00:01.000'',
                total_duration = 0, total_words_read = 3,
                top_content_words = [''kept'', ''words''],
                important_events = [NO_SIGNIFICANT_EVENTS],
                content_summary_narrative = ''kept words kept''\<rparr>))"
proof (intro conjI)
  show "generate_narrative_summary log_with_bad_timestamp =
     ([''[WARNING] Skipping record due to bad timestamp: 9 o'clock''],
      Inr \<lparr>start_time = ''09:00:01.000'', end_time = ''09:00:01.000'', total_duration = 0,
           total_words_read = 3, top_content_words = [''kept'', ''words''],
           important_events = [NO_SIGNIFICANT_EVENTS],
           inferred_content_keywords = ''kept, words'', total_unique_words = 2\<rparr>)"
    by code_simp
  show "generate_narrative_summary_updated rule_based_nltk log_with_bad_timestamp =
     ([],
      Inr (Inr \<lparr>start_time = ''09:00:01.000'', end_time = ''09:00:01.000'',
                total_duration = 0, total_words_read = 3,
                top_content_words = [''kept'', ''words''],
                important_events = [NO_SIGNIFICANT_EVENTS],
                content_summary_narrative = ''kept words kept''\<rparr>))"
    by code_simp
qed (simp_all only: parse_records_snd parse_records_updated_snd narrative_printed
      parse_records_fst updated_printed)


section \<open>The top words\<close>

lemma Counter_snoc: "Counter (ws @ [x]) = counter_add (Counter ws) x"
  by (simp add: Counter_def)

lemma keys_counter_add:
  "map fst (counter_add ps x) = (if x \<in> fst ` set ps then map fst ps else map fst ps @ [x])"
  by (induction ps x rule: counter_add.induct) (auto simp: image_iff)

lemma map_of_counter_add:
  "map_of (counter_add ps x) =
     (map_of ps)(x \<mapsto> (case map_of ps x of None \<Rightarrow> 1 | Some c \<Rightarrow> Suc c))"
  by (induction ps x rule: counter_add.induct) (auto simp: fun_eq_iff)

lemma keys_Counter: "set (map fst (Counter ws)) = set ws"
  by (induction ws rule: rev_induct) (auto simp: Counter_snoc keys_counter_add Counter_def)

lemma distinct_Counter: "distinct (map fst (Counter ws))"
proof (induction ws rule: rev_induct)
  case Nil
  then show ?case by (simp add: Counter_def)
next
  case (snoc x ws)
  then show ?case by (auto simp: Counter_snoc keys_counter_add)
qed

lemma map_of_Counter:
  "map_of (Counter ws) w = (if w \<in> set ws then Some (count_list ws w) else None)"
proof (induction ws rule: rev_induct)
  case Nil
  then show ?case by (simp add: Counter_def)
next
  case (snoc x ws)
  then show ?case by (auto simp: Counter_snoc map_of_counter_add)
qed

lemma Counter_count:
  assumes "(w, c) \<in> set (Counter ws)"
  shows "c = count_list ws w"
proof -
  have "map_of (Counter ws) w = Some c"
    using assms by (simp add: map_of_eq_Some_iff [OF distinct_Counter])
  then show ?thesis by (simp add: map_of_Counter split: if_splits)
qed

lemma first_index_less: "x \<in> set ws \<Longrightarrow> first_index ws x < length ws"
  by (induction ws) auto

lemma first_index_append:
  "first_index (ws @ vs) x =
     (if x \<in> set ws then first_index ws x else length ws + first_index vs x)"
  by (induction ws) auto

lemma first_index_Counter:
  "sorted_wrt (\<lambda>a b. first_index ws a < first_index ws b) (map fst (Counter ws))"
proof (induction ws rule: rev_induct)
  case Nil
  then show ?case by (simp add: Counter_def)
next
  case (snoc x ws)
  have keys: "set (map fst (Counter ws)) = set ws" by (rule keys_Counter)
  have old: "sorted_wrt (\<lambda>a b. first_index (ws @ [x]) a < first_index (ws @ [x]) b)
               (map fst (Counter ws))"
    using snoc keys
    by (auto simp: first_index_append elim!: sorted_wrt_mono_rel [rotated])
  show ?case
    using old keys
    by (auto simp: Counter_snoc keys_counter_add sorted_wrt_append first_index_append
        first_index_less)
qed

lemma sorted_wrt_insort_key:
  fixes f :: "'a \<Rightarrow> 'k::linorder"
  assumes "sorted_wrt (\<lambda>a b. f a < f b \<or> (f a = f b \<and> R a b)) zs"
    and "\<forall>z\<in>set zs. R x z"
  shows "sorted_wrt (\<lambda>a b. f a < f b \<or> (f a = f b \<and> R a b)) (insort_key f x zs)"
  using assms by (induction zs) (auto simp: set_insort_key)

lemma sorted_wrt_sort_key:
  fixes f :: "'a \<Rightarrow> 'k::linorder"
  assumes "sorted_wrt R xs"
  shows "sorted_wrt (\<lambda>a b. f a < f b \<or> (f a = f b \<and> R a b)) (sort_key f xs)"
  using assms
proof (induction xs)
  case Nil
  then show ?case by simp
next
  case (Cons x xs)
  then show ?case by (simp add: sorted_wrt_insort_key)
qed


lemma precedes_sorted:
  "sorted_wrt (precedes ws) (map fst (sort_key (\<lambda>(word, count). - int count) (Counter ws)))"
proof -
  let ?f = "\<lambda>(word, count). - int count"
  let ?R = "\<lambda>p q. first_index ws (fst p) < first_index ws (fst q)"
  let ?L = "sort_key ?f (Counter ws)"
  have "sorted_wrt ?R (Counter ws)"
    using first_index_Counter [of ws] by (simp add: sorted_wrt_map)
  then have "sorted_wrt (\<lambda>a b. ?f a < ?f b \<or> (?f a = ?f b \<and> ?R a b)) ?L"
    by (rule sorted_wrt_sort_key)
  moreover have "precedes ws (fst a) (fst b)"
    if "a \<in> set ?L" "b \<in> set ?L" "?f a < ?f b \<or> (?f a = ?f b \<and> ?R a b)" for a b
  proof -
    obtain w c v d where ab: "a = (w, c)" "b = (v, d)" by (cases a, cases b)
    have "c = count_list ws w" "d = count_list ws v"
      using that(1,2) ab by (auto dest: Counter_count)
    then show ?thesis using that(3) ab by (auto simp: precedes_def)
  qed
  ultimately have "sorted_wrt (\<lambda>a b. precedes ws (fst a) (fst b)) ?L"
    by (rule sorted_wrt_mono_rel [rotated])
  then show ?thesis by (simp add: sorted_wrt_map)
qed

lemma top_words_take:
  "top_words k ws = take k (map fst (sort_key (\<lambda>(word, count). - int count) (Counter ws)))"
  by (simp add: top_words_def most_common_def take_map)

lemma top_words_sorted: "sorted_wrt (precedes ws) (top_words k ws)"
proof -
  let ?L = "map fst (sort_key (\<lambda>(word, count). - int count) (Counter ws))"
  have "sorted_wrt (precedes ws) (take k ?L @ drop k ?L)"
    using precedes_sorted [of ws] by simp
  then show ?thesis
    unfolding top_words_take sorted_wrt_append by blast
qed

lemma top_words_cut:
  assumes "w \<in> set (top_words k ws)" and "v \<in> set ws" and "v \<notin> set (top_words k ws)"
  shows "precedes ws w v"
proof -
  let ?L = "map fst (sort_key (\<lambda>(word, count). - int count) (Counter ws))"
  have "set ?L = set ws" using keys_Counter [of ws] by simp
  then have "v \<in> set ?L" using assms(2) by blast
  then have "v \<in> set (take k ?L @ drop k ?L)" by (simp only: append_take_drop_id)
  then have "v \<in> set (take k ?L) \<union> set (drop k ?L)" by (simp only: set_append)
  then have v: "v \<in> set (drop k ?L)"
    using assms(3) unfolding top_words_take by blast
  have "sorted_wrt (precedes ws) (take k ?L @ drop k ?L)"
    using precedes_sorted [of ws] by simp
  then show ?thesis
    using assms(1) v unfolding top_words_take sorted_wrt_append by blast
qed

lemma top_words_distinct: "distinct (top_words k ws)"
proof -
  have "distinct (map fst (sort_key (\<lambda>(word, count). - int count) (Counter ws)))"
    using distinct_Counter [of ws] by (simp add: distinct_map inj_on_def)
  then show ?thesis unfolding top_words_take by (rule distinct_take)
qed

lemma top_words_subset: "set (top_words k ws) \<subseteq> set ws"
proof -
  have "set (map fst (sort_key (\<lambda>(word, count). - int count) (Counter ws))) = set ws"
    using keys_Counter [of ws] by simp
  then show ?thesis unfolding top_words_take using set_take_subset by fastforce
qed

lemma top_words_length: "length (top_words k ws) = min k (card (set ws))"
proof -
  have "length (Counter ws) = card (set ws)"
    using distinct_Counter [of ws] keys_Counter [of ws]
    by (metis distinct_card length_map)
  then show ?thesis unfolding top_words_take by simp
qed

text \<open>
  C8. The top words of either report are \<open>top_words 10\<close> of the merged word sequence.
  For every \<open>k\<close>, \<open>top_words k\<close> returns \<open>min k n\<close> distinct words of the sequence, \<open>n\<close>
  being the number of its distinct words, hence at most \<open>k\<close>; they are listed by
  descending count, words of equal count by first occurrence; and every returned word
  comes before every word not returned in that same order, so that its count is at
  least as large. The result is a function of the sequence and \<open>k\<close> alone.
\<close>

theorem top_words_properties:
  "(valid_records log_data \<noteq> [] \<longrightarrow>
      (\<exists>r. snd (generate_narrative_summary log_data) = Inr r \<and>
         top_content_words r = top_words 10 (merged_words log_data)) \<and>
      (\<forall>narrative.
         generate_extractive_summary nlp (merged_words log_data) 4 = Inr narrative \<longrightarrow>
         (\<exists>r. snd (generate_narrative_summary_updated nlp log_data) = Inr (Inr r) \<and>
            top_content_words r = top_words 10 (merged_words log_data)))) \<and>
   length (top_words k ws) = min k (card (set ws)) \<and>
   distinct (top_words k ws) \<and>
   set (top_words k ws) \<subseteq> set ws \<and>
   sorted_wrt (precedes ws) (top_words k ws) \<and>
   (\<forall>w \<in> set (top_words k ws). \<forall>v \<in> set ws - set (top_words k ws).
      precedes ws w v \<and> count_list ws v \<le> count_list ws w)"
proof (intro conjI impI ballI)
  fix w v
  assume "w \<in> set (top_words k ws)" "v \<in> set ws - set (top_words k ws)"
  then show "precedes ws w v" using top_words_cut by fastforce
  then show "count_list ws v \<le> count_list ws w" by (auto simp: precedes_def)
qed (simp_all add: narrative_report_eq smart_report_eq top_words_length top_words_distinct
      top_words_subset top_words_sorted)

text \<open>The words \<open>b a b c a d\<close>: \<open>b\<close> and \<open>a\<close> occur twice, and \<open>b\<close> is seen first.\<close>

lemma top_words_with_ties: "top_words 2 words_with_ties = [''b'', ''a'']"
  by code_simp

lemma precedes_with_ties: "precedes words_with_ties ''a'' ''c'' \<and> \<not> precedes words_with_ties ''c'' ''a''"
  by code_simp

theorem top_words_properties_witness:
  "top_words 2 words_with_ties = [''b'', ''a''] \<and>
   precedes words_with_ties ''b'' ''a'' \<and>
   precedes words_with_ties ''a'' ''c'' \<and>
   count_list words_with_ties ''d'' \<le> count_list words_with_ties ''a'' \<and>
   (\<exists>r. snd (generate_narrative_summary log_with_gap) = Inr r \<and>
      top_content_words r = [''beta'', ''alpha'', ''gamma''])"
proof -
  note top = top_words_properties [of log_with_gap rule_based_nltk 2 words_with_ties]
  have cut: "\<forall>w \<in> set [''b'', ''a'']. \<forall>v \<in> set words_with_ties - set [''b'', ''a''].
      precedes words_with_ties w v \<and> count_list words_with_ties v \<le> count_list words_with_ties w"
    using top unfolding top_words_with_ties by blast
  have "sorted_wrt (precedes words_with_ties) [''b'', ''a'']"
    using top unfolding top_words_with_ties by blast
  moreover have "''c'' \<in> set words_with_ties - set [''b'', ''a'']"
    "''d'' \<in> set words_with_ties - set [''b'', ''a'']"
    by (simp_all add: words_with_ties_def)
  moreover have "\<exists>r. snd (generate_narrative_summary log_with_gap) = Inr r \<and>
      top_content_words r = top_words 10 (merged_words log_with_gap)"
    using top valid_log_with_gap by blast
  moreover have "top_words 10 (merged_words log_with_gap) = [''beta'', ''alpha'', ''gamma'']"
    by code_simp
  ultimately show ?thesis
    using cut by (simp add: top_words_with_ties)
qed


section \<open>The summarizer, unfolded\<close>

lemma keys_counter_add_set: "fst ` set (counter_add ps x) = insert x (fst ` set ps)"
  by (induction ps x rule: counter_add.induct) auto

lemma keys_count_word:
  "fst ` set (foldl (count_word stop_words) acc words) =
     fst ` set acc \<union> {w \<in> set words. isalnum w \<and> w \<notin> set stop_words}"
proof (induction words arbitrary: acc)
  case Nil
  then show ?case by simp
next
  case (Cons w words)
  show ?case
    using Cons [of "count_word stop_words acc w"]
    by (auto simp: count_word_def keys_counter_add_set)
qed

lemma keys_normalize: "map fst (normalize_frequencies word_frequencies) = map fst word_frequencies"
  by (simp add: normalize_frequencies_def split_def comp_def)

lemma map_of_normalize:
  "map_of (normalize_frequencies word_frequencies) w = None \<longleftrightarrow> w \<notin> fst ` set word_frequencies"
proof -
  have "map_of (normalize_frequencies word_frequencies) w = None \<longleftrightarrow>
        w \<notin> set (map fst (normalize_frequencies word_frequencies))"
    by (simp add: map_of_eq_None_iff)
  then show ?thesis by (simp add: keys_normalize)
qed

lemma keys_add_score: "fst ` set (add_score scores s f) = insert s (fst ` set scores)"
  by (induction scores s f rule: add_score.induct) auto

lemma keys_score_word:
  "fst ` set (score_word freqs s scores w) =
     fst ` set scores \<union> (if map_of freqs w \<noteq> None \<and> pieces s < 30 then {s} else {})"
  by (auto simp: score_word_def pieces_def keys_add_score split: option.splits)

lemma keys_score_tokens:
  "fst ` set (foldl (score_word freqs s) scores tokens) =
     fst ` set scores \<union>
       (if pieces s < 30 \<and> (\<exists>t \<in> set tokens. map_of freqs t \<noteq> None) then {s} else {})"
proof (induction tokens arbitrary: scores)
  case Nil
  then show ?case by simp
next
  case (Cons t tokens)
  show ?case
    unfolding foldl_Cons Cons [of "score_word freqs s scores t"] keys_score_word
    by auto
qed

lemma keys_score_sentences:
  assumes "score_sentences nlp freqs scores sentences = Inr scores'"
  shows "fst ` set scores' =
     fst ` set scores \<union>
       {s \<in> set sentences. pieces s < 30 \<and> (\<exists>t \<in> set (tokens_of nlp s). map_of freqs t \<noteq> None)}"
  using assms
proof (induction sentences arbitrary: scores)
  case Nil
  then show ?case by simp
next
  case (Cons s sentences)
  then obtain tokens where t: "word_tokenize nlp (lower s) = Inr tokens"
    by (auto split: sum.splits)
  then have "score_sentences nlp freqs (foldl (score_word freqs s) scores tokens) sentences = Inr scores'"
    using Cons.prems by simp
  from Cons.IH [OF this] show ?case
    using t by (auto simp: keys_score_tokens tokens_of_def)
qed

lemma score_sentences_returns:
  assumes "\<forall>s \<in> set sentences. word_tokenize nlp (lower s) = Inr (tokens_of nlp s)"
  shows "\<exists>scores'. score_sentences nlp freqs scores sentences = Inr scores'"
  using assms
proof (induction sentences arbitrary: scores)
  case Nil
  then show ?case by simp
next
  case (Cons s sentences)
  then show ?case by simp
qed

lemma map_fst_add_score:
  "map fst (add_score scores s f) =
     (if s \<in> fst ` set scores then map fst scores else map fst scores @ [s])"
  by (induction scores s f rule: add_score.induct) (auto simp: image_iff)

lemma distinct_score_word:
  "distinct (map fst scores) \<Longrightarrow> distinct (map fst (score_word freqs s scores w))"
  by (auto simp: score_word_def map_fst_add_score split: option.splits)

lemma distinct_score_tokens:
  "distinct (map fst scores) \<Longrightarrow>
   distinct (map fst (foldl (score_word freqs s) scores tokens))"
  by (induction tokens arbitrary: scores) (simp_all add: distinct_score_word)

lemma distinct_score_sentences:
  assumes "score_sentences nlp freqs scores sentences = Inr scores'"
    and "distinct (map fst scores)"
  shows "distinct (map fst scores')"
  using assms
proof (induction sentences arbitrary: scores)
  case Nil
  then show ?case by simp
next
  case (Cons s sentences)
  then obtain tokens where t: "word_tokenize nlp (lower s) = Inr tokens"
    by (auto split: sum.splits)
  then have "score_sentences nlp freqs (foldl (score_word freqs s) scores tokens) sentences =
      Inr scores'"
    using Cons.prems by simp
  then show ?case
    using Cons.IH Cons.prems(2) distinct_score_tokens by blast
qed

lemma nlargest_distinct:
  assumes "distinct (map fst scores)"
  shows "distinct (nlargest n scores)"
proof -
  have "distinct (map fst (sort_key (\<lambda>(sentence, score). - score) scores))"
    using assms by (simp add: distinct_map inj_on_def)
  then show ?thesis unfolding nlargest_def by (rule distinct_take)
qed

lemma nlargest_length:
  assumes "distinct (map fst scores)"
  shows "length (nlargest n scores) = min (nat n) (card (fst ` set scores))"
proof -
  have "length scores = card (fst ` set scores)"
    using assms by (metis distinct_card length_map list.set_map)
  then show ?thesis by (simp add: nlargest_def)
qed

lemma nlargest_subset: "set (nlargest n scores) \<subseteq> fst ` set scores"
proof -
  have "set (take (nat n) (map fst (sort_key (\<lambda>(sentence, score). - score) scores)))
        \<subseteq> set (map fst (sort_key (\<lambda>(sentence, score). - score) scores))"
    by (rule set_take_subset)
  then show ?thesis by (simp add: nlargest_def)
qed

lemma nlargest_all:
  assumes "distinct (map fst scores)" and "card (fst ` set scores) \<le> nat n"
  shows "set (nlargest n scores) = fst ` set scores"
proof -
  have "length scores = card (fst ` set scores)"
    using assms(1) by (metis distinct_card length_map list.set_map)
  then show ?thesis using assms(2) by (simp add: nlargest_def)
qed

lemma nlargest_Nil: "nlargest n [] = []"
  by (simp add: nlargest_def)

lemma scoring_path:
  assumes "all_words \<noteq> []"
    and "sent_tokenize nlp (join_str '' '' all_words) = Inr sentences"
    and "word_tokenize nlp (lower (join_str '' '' all_words)) = Inr words"
    and "\<not> int (length sentences) < num_sentences"
    and "stopwords_english nlp = Inr stop_words"
  shows "generate_extractive_summary nlp all_words num_sentences =
     (case score_sentences nlp (normalize_frequencies (foldl (count_word stop_words) [] words)) [] sentences of
        Inl e \<Rightarrow> Inl e
      | Inr sentence_scores \<Rightarrow> Inr (join_str '' '' (nlargest num_sentences sentence_scores)))"
  using assms by (simp add: generate_extractive_summary_def Let_def split: sum.splits)

lemma content_word_keys:
  "map_of (normalize_frequencies (foldl (count_word stop_words) [] words)) t \<noteq> None \<longleftrightarrow>
   content_word stop_words words t"
  by (auto simp: map_of_normalize keys_count_word content_word_def)


lemma content_word_keys_Some:
  "(\<exists>y. map_of (normalize_frequencies (foldl (count_word stop_words) [] words)) t = Some y) \<longleftrightarrow>
   content_word stop_words words t"
  using content_word_keys [of stop_words words t] by auto

text \<open>The concrete word streams, evaluated.\<close>

lemma rule_based_returns:
  "word_tokenize rule_based_nltk s = Inr (rule_word_tokenize s)"
  "sent_tokenize rule_based_nltk s = Inr (rule_sent_tokenize s)"
  "stopwords_english rule_based_nltk = Inr rule_stop_words"
  "word_tokenize rule_based_nltk (lower s) = Inr (tokens_of rule_based_nltk s)"
  by (simp_all add: rule_based_nltk_def tokens_of_def)

lemma sentences_thirty:
  "rule_sent_tokenize (join_str '' '' stream_with_thirty_pieces) =
     [thirty_piece_sentence, ''Cats purr.'', ''Dogs bark.'', ''Birds sing.'']"
  by code_simp

lemma scored_thirty:
  "{s \<in> set [thirty_piece_sentence, ''Cats purr.'', ''Dogs bark.'', ''Birds sing.''].
      pieces s < 30 \<and>
      (\<exists>t \<in> set (tokens_of rule_based_nltk s).
         content_word rule_stop_words
           (rule_word_tokenize (lower (join_str '' '' stream_with_thirty_pieces))) t)} =
   {''Cats purr.'', ''Dogs bark.'', ''Birds sing.''}"
  by code_simp

lemma pieces_thirty: "pieces thirty_piece_sentence = 30"
  by code_simp

lemma sentences_stop:
  "rule_sent_tokenize (join_str '' '' stream_of_stop_words) =
     [''It is.'', ''It was.'', ''He is.'', ''He was.'']"
  by code_simp

lemma unscored_stop:
  "\<forall>s \<in> set [''It is.'', ''It was.'', ''He is.'', ''He was.''].
     30 \<le> pieces s \<or>
     (\<forall>t \<in> set (tokens_of rule_based_nltk s).
        \<not> content_word rule_stop_words
            (rule_word_tokenize (lower (join_str '' '' stream_of_stop_words))) t)"
  by code_simp


section \<open>The empty word stream\<close>

text \<open>
  C3. For the empty word stream the extractive summarizer returns its fixed message,
  whatever the tokenizers would do: the result is a returned value, not a raised
  error, and the message is not the empty string.
\<close>

theorem empty_stream_message:
  "generate_extractive_summary nlp [] num_sentences = Inr NOT_ENOUGH_TEXT_MESSAGE \<and>
   NOT_ENOUGH_TEXT_MESSAGE = ''Not enough coherent text detected to generate a narrative summary.'' \<and>
   generate_extractive_summary nlp [] num_sentences \<noteq> Inr [] \<and>
   generate_extractive_summary nlp [] num_sentences \<noteq> Inl e"
  by (simp add: generate_extractive_summary_def NOT_ENOUGH_TEXT_MESSAGE_def)


section \<open>Fewer sentence units than asked for\<close>

text \<open>
  C4. With fewer sentence units than \<open>N\<close> the summarizer is to return the whole
  reconstructed text, as the comment on its \<^verbatim>\<open>return\<close> says. On the words
  \<^verbatim>\<open>Hello.\<close>, the empty word and \<^verbatim>\<open>World.\<close> the text has two blanks between the
  sentences; there are two units, fewer than 4, and the summarizer returns them joined
  by one blank, which is not the text.
\<close>

theorem short_text_blanks_collapsed:
  "join_str '' '' stream_with_empty_word = ''Hello.  World.'' \<and>
   sent_tokenize rule_based_nltk ''Hello.  World.'' = Inr [''Hello.'', ''World.''] \<and>
   generate_extractive_summary rule_based_nltk stream_with_empty_word 4 = Inr ''Hello. World.'' \<and>
   generate_extractive_summary rule_based_nltk stream_with_empty_word 4 \<noteq>
     Inr (join_str '' '' stream_with_empty_word)"
  by code_simp


section \<open>Long sentences and empty summaries\<close>

text \<open>
  C1, as amended. When the text has at least \<open>N\<close> sentence units and no tokenizer call
  raises, the scored sentences are exactly the units with fewer than 30 blank-separated
  pieces that hold a content word; the summary joins \<open>min N m\<close> distinct scored
  sentences, \<open>m\<close> being their number; and a unit of 30 pieces or more is neither scored
  nor selected.
\<close>

theorem long_sentences_excluded:
  assumes "all_words \<noteq> []"
    and "sent_tokenize nlp (join_str '' '' all_words) = Inr sentences"
    and "word_tokenize nlp (lower (join_str '' '' all_words)) = Inr words"
    and "\<not> int (length sentences) < num_sentences"
    and "stopwords_english nlp = Inr stop_words"
    and "\<forall>s \<in> set sentences. word_tokenize nlp (lower s) = Inr (tokens_of nlp s)"
  shows "\<exists>sentence_scores.
     score_sentences nlp (normalize_frequencies (foldl (count_word stop_words) [] words)) []
       sentences = Inr sentence_scores \<and>
     generate_extractive_summary nlp all_words num_sentences =
       Inr (join_str '' '' (nlargest num_sentences sentence_scores)) \<and>
     fst ` set sentence_scores =
       {s \<in> set sentences. pieces s < 30 \<and>
          (\<exists>t \<in> set (tokens_of nlp s). content_word stop_words words t)} \<and>
     set (nlargest num_sentences sentence_scores) \<subseteq> fst ` set sentence_scores \<and>
     distinct (nlargest num_sentences sentence_scores) \<and>
     length (nlargest num_sentences sentence_scores) =
       min (nat num_sentences) (card (fst ` set sentence_scores)) \<and>
     (\<forall>s. 30 \<le> pieces s \<longrightarrow>
        s \<notin> fst ` set sentence_scores \<and> s \<notin> set (nlargest num_sentences sentence_scores))"
proof -
  let ?freqs = "normalize_frequencies (foldl (count_word stop_words) [] words)"
  obtain sentence_scores where
    sc: "score_sentences nlp ?freqs [] sentences = Inr sentence_scores"
    using score_sentences_returns [OF assms(6)] by blast
  have keys: "fst ` set sentence_scores =
       {s \<in> set sentences. pieces s < 30 \<and>
          (\<exists>t \<in> set (tokens_of nlp s). content_word stop_words words t)}"
    using keys_score_sentences [OF sc] by (simp add: content_word_keys_Some)
  have dist: "distinct (map fst sentence_scores)"
    using distinct_score_sentences [OF sc] by simp
  have sub: "set (nlargest num_sentences sentence_scores) \<subseteq> fst ` set sentence_scores"
    by (rule nlargest_subset)
  have res: "generate_extractive_summary nlp all_words num_sentences =
       Inr (join_str '' '' (nlargest num_sentences sentence_scores))"
    using scoring_path [OF assms(1-5)] sc by simp
  have long: "\<forall>s. 30 \<le> pieces s \<longrightarrow>
        s \<notin> fst ` set sentence_scores \<and> s \<notin> set (nlargest num_sentences sentence_scores)"
    using sub keys by auto
  show ?thesis
    by (intro exI [of _ sentence_scores] conjI sc res keys sub long
        nlargest_distinct [OF dist] nlargest_length [OF dist])
qed

theorem long_sentences_excluded_witness:
  "\<exists>sentence_scores.
     generate_extractive_summary rule_based_nltk stream_with_thirty_pieces 4 =
       Inr (join_str '' '' (nlargest 4 sentence_scores)) \<and>
     fst ` set sentence_scores = {''Cats purr.'', ''Dogs bark.'', ''Birds sing.''} \<and>
     length (nlargest 4 sentence_scores) = 3 \<and>
     thirty_piece_sentence \<notin> set (nlargest 4 sentence_scores)"
proof -
  have ne: "stream_with_thirty_pieces \<noteq> []"
    by (simp add: stream_with_thirty_pieces_def)
  have st: "sent_tokenize rule_based_nltk (join_str '' '' stream_with_thirty_pieces) =
      Inr [thirty_piece_sentence, ''Cats purr.'', ''Dogs bark.'', ''Birds sing.'']"
    by (simp only: rule_based_returns sentences_thirty)
  have enough: "\<not> int (length [thirty_piece_sentence, ''Cats purr.'', ''Dogs bark.'',
      ''Birds sing.'']) < 4"
    by simp
  have tok: "\<forall>s \<in> set [thirty_piece_sentence, ''Cats purr.'', ''Dogs bark.'', ''Birds sing.''].
      word_tokenize rule_based_nltk (lower s) = Inr (tokens_of rule_based_nltk s)"
    by (simp add: rule_based_nltk_def tokens_of_def)
  have "\<exists>sentence_scores.
     score_sentences rule_based_nltk
       (normalize_frequencies (foldl (count_word rule_stop_words) []
          (rule_word_tokenize (lower (join_str '' '' stream_with_thirty_pieces))))) []
       [thirty_piece_sentence, ''Cats purr.'', ''Dogs bark.'', ''Birds sing.''] =
       Inr sentence_scores \<and>
     generate_extractive_summary rule_based_nltk stream_with_thirty_pieces 4 =
       Inr (join_str '' '' (nlargest 4 sentence_scores)) \<and>
     fst ` set sentence_scores =
       {s \<in> set [thirty_piece_sentence, ''Cats purr.'', ''Dogs bark.'', ''Birds sing.''].
          pieces s < 30 \<and>
          (\<exists>t \<in> set (tokens_of rule_based_nltk s).
             content_word rule_stop_words
               (rule_word_tokenize (lower (join_str '' '' stream_with_thirty_pieces))) t)} \<and>
     set (nlargest 4 sentence_scores) \<subseteq> fst ` set sentence_scores \<and>
     distinct (nlargest 4 sentence_scores) \<and>
     length (nlargest 4 sentence_scores) = min (nat 4) (card (fst ` set sentence_scores)) \<and>
     (\<forall>s. 30 \<le> pieces s \<longrightarrow>
        s \<notin> fst ` set sentence_scores \<and> s \<notin> set (nlargest 4 sentence_scores))"
    by (rule long_sentences_excluded
        [OF ne st rule_based_returns(1) enough rule_based_returns(3) tok])
  then obtain sentence_scores where
    res: "generate_extractive_summary rule_based_nltk stream_with_thirty_pieces 4 =
       Inr (join_str '' '' (nlargest 4 sentence_scores))"
    and keys: "fst ` set sentence_scores =
       {s \<in> set [thirty_piece_sentence, ''Cats purr.'', ''Dogs bark.'', ''Birds sing.''].
          pieces s < 30 \<and>
          (\<exists>t \<in> set (tokens_of rule_based_nltk s).
             content_word rule_stop_words
               (rule_word_tokenize (lower (join_str '' '' stream_with_thirty_pieces))) t)}"
    and len: "length (nlargest 4 sentence_scores) =
       min (nat 4) (card (fst ` set sentence_scores))"
    and long: "\<forall>s. 30 \<le> pieces s \<longrightarrow>
        s \<notin> fst ` set sentence_scores \<and> s \<notin> set (nlargest 4 sentence_scores)"
    by (elim exE conjE)
  have keys': "fst ` set sentence_scores = {''Cats purr.'', ''Dogs bark.'', ''Birds sing.''}"
    using keys by (simp only: scored_thirty)
  have len': "length (nlargest 4 sentence_scores) = 3"
    unfolding len keys' by simp
  have out: "thirty_piece_sentence \<notin> set (nlargest 4 sentence_scores)"
    using long pieces_thirty by simp
  show ?thesis
    by (rule exI [of _ sentence_scores]) (simp only: res keys' len' out simp_thms)
qed

text \<open>
  C1 as stated fails for a unit of exactly 30 pieces: with \<open>N = 4\<close> and four sentence
  units, the first of 30 pieces and holding the most frequent content word, the
  summary consists of the other three.
\<close>

theorem exactly_thirty_counterexample:
  "pieces thirty_piece_sentence = 30 \<and>
   sent_tokenize rule_based_nltk (join_str '' '' stream_with_thirty_pieces) =
     Inr [thirty_piece_sentence, ''Cats purr.'', ''Dogs bark.'', ''Birds sing.''] \<and>
   ''data'' \<in> set (tokens_of rule_based_nltk thirty_piece_sentence) \<and>
   content_word rule_stop_words
     (rule_word_tokenize (lower (join_str '' '' stream_with_thirty_pieces))) ''data'' \<and>
   generate_extractive_summary rule_based_nltk stream_with_thirty_pieces 4 =
     Inr ''Cats purr. Dogs bark. Birds sing.''"
  by code_simp

text \<open>
  C10. When a non-empty word stream gives at least \<open>N\<close> sentence units, no tokenizer
  call raises, and every unit has 30 pieces or more or holds no content word, the
  summarizer returns the empty string, not its message for insufficient data.
\<close>

theorem empty_summary:
  assumes "all_words \<noteq> []"
    and "sent_tokenize nlp (join_str '' '' all_words) = Inr sentences"
    and "word_tokenize nlp (lower (join_str '' '' all_words)) = Inr words"
    and "\<not> int (length sentences) < num_sentences"
    and "stopwords_english nlp = Inr stop_words"
    and "\<forall>s \<in> set sentences. word_tokenize nlp (lower s) = Inr (tokens_of nlp s)"
    and "\<forall>s \<in> set sentences.
           30 \<le> pieces s \<or> (\<forall>t \<in> set (tokens_of nlp s). \<not> content_word stop_words words t)"
  shows "generate_extractive_summary nlp all_words num_sentences = Inr [] \<and>
         generate_extractive_summary nlp all_words num_sentences \<noteq> Inr NOT_ENOUGH_TEXT_MESSAGE"
proof -
  let ?freqs = "normalize_frequencies (foldl (count_word stop_words) [] words)"
  obtain sentence_scores where
    sc: "score_sentences nlp ?freqs [] sentences = Inr sentence_scores"
    using score_sentences_returns [OF assms(6)] by blast
  have "fst ` set sentence_scores =
       {s \<in> set sentences. pieces s < 30 \<and>
          (\<exists>t \<in> set (tokens_of nlp s). content_word stop_words words t)}"
    using keys_score_sentences [OF sc] by (simp add: content_word_keys_Some)
  also have "\<dots> = {}" using assms(7) by fastforce
  finally have "sentence_scores = []" by simp
  then have "generate_extractive_summary nlp all_words num_sentences = Inr []"
    using scoring_path [OF assms(1-5)] sc by (simp add: nlargest_Nil)
  then show ?thesis by (simp add: NOT_ENOUGH_TEXT_MESSAGE_def)
qed

theorem empty_summary_witness:
  "stream_of_stop_words \<noteq> [] \<and>
   generate_extractive_summary rule_based_nltk stream_of_stop_words 4 = Inr []"
proof -
  have ne: "stream_of_stop_words \<noteq> []"
    by (simp add: stream_of_stop_words_def)
  have st: "sent_tokenize rule_based_nltk (join_str '' '' stream_of_stop_words) =
      Inr [''It is.'', ''It was.'', ''He is.'', ''He was.'']"
    by (simp only: rule_based_returns sentences_stop)
  have enough: "\<not> int (length [''It is.'', ''It was.'', ''He is.'', ''He was.'']) < 4"
    by simp
  have tok: "\<forall>s \<in> set [''It is.'', ''It was.'', ''He is.'', ''He was.''].
      word_tokenize rule_based_nltk (lower s) = Inr (tokens_of rule_based_nltk s)"
    by (simp add: rule_based_nltk_def tokens_of_def)
  show ?thesis
    using empty_summary [OF ne st rule_based_returns(1) enough rule_based_returns(3) tok
        unscored_stop] ne
    by simp
qed

end
